theory Spec2Isabelle
  imports Complex_Main "HOL-Library.AList"
begin

section \<open>Values, tables and dictionaries\<close>

text \<open>
  The pages read two delimited-text files with pandas. A column of text is read as a
  column of Python strings in which an empty field is the missing value NaN; this is the
  only kind of column modelled here (a column that holds only numbers, or only empty
  fields, is read with a numeric type, and is left out). A Python string is a list of code
  points, and a \<^typ>\<open>char\<close> stands for a code point below 256. NaN is one value
  (pandas stores the same object for every missing field of such a column), so as a
  dictionary key it is a key like any other.
\<close>

datatype cell = NaN | Str string

datatype py_error = KeyError string | ZeroDivisionError | TypeError | UnboundLocalError string

text \<open>\<^verbatim>\<open>pd.notna(v)\<close>\<close>

definition notna :: "cell \<Rightarrow> bool" where
  "notna v = (v \<noteq> NaN)"

text \<open>
  A data frame has its column labels and its rows; a row gives a cell for every label,
  and only the labels of the frame can be looked up: \<^verbatim>\<open>row[c]\<close> and \<^verbatim>\<open>df[c]\<close>
  raise KeyError for any other label.
\<close>

type_synonym row = "string \<Rightarrow> cell"

record dataframe =
  columns :: "string list"
  rows :: "row list"

definition getitem :: "string list \<Rightarrow> row \<Rightarrow> string \<Rightarrow> py_error + cell" where
  "getitem cols r c = (if c \<in> set cols then Inr (r c) else Inl (KeyError c))"

definition getcolumn :: "dataframe \<Rightarrow> string \<Rightarrow> py_error + cell list" where
  "getcolumn df c =
     (if c \<in> set (columns df) then Inr (map (\<lambda>r. r c) (rows df)) else Inl (KeyError c))"

text \<open>
  A Python dictionary keeps its keys in insertion order: an association list with distinct
  keys, where storing under a new key appends and storing under an old one replaces the
  value in place. A Python set is a set.
\<close>

type_synonym ('k, 'v) dict = "('k \<times> 'v) list"

definition contains :: "('k, 'v) dict \<Rightarrow> 'k \<Rightarrow> bool" where
  "contains d k = (k \<in> fst ` set d)"

definition setitem :: "('k, 'v) dict \<Rightarrow> 'k \<Rightarrow> 'v \<Rightarrow> ('k, 'v) dict" where
  "setitem d k v = AList.update k v d"

text \<open>\<^verbatim>\<open>d.get(k, dflt)\<close>\<close>

definition dict_get :: "('k, 'v) dict \<Rightarrow> 'k \<Rightarrow> 'v \<Rightarrow> 'v" where
  "dict_get d k dflt = (case map_of d k of Some v \<Rightarrow> v | None \<Rightarrow> dflt)"

text \<open>\<^verbatim>\<open>d[k].add(x)\<close>, for a key that is in the dictionary\<close>

definition add_to :: "('k, 'v set) dict \<Rightarrow> 'k \<Rightarrow> 'v \<Rightarrow> ('k, 'v set) dict" where
  "add_to d k x = AList.map_entry k (insert x) d"

text \<open>A \<^verbatim>\<open>for\<close> loop whose body may raise: the first error ends the loop.\<close>

fun for_each :: "('a \<Rightarrow> 's \<Rightarrow> py_error + 's) \<Rightarrow> 'a list \<Rightarrow> 's \<Rightarrow> py_error + 's" where
  "for_each body [] s = Inr s"
| "for_each body (x # xs) s =
     (case body x s of Inl e \<Rightarrow> Inl e | Inr s' \<Rightarrow> for_each body xs s')"

section \<open>The membership resolver\<close>

text \<open>
  \<^verbatim>\<open>re.split(r'[,\s]+', s)\<close>: the separators are the comma and the characters that
  \<^verbatim>\<open>\s\<close> matches in a Python string (below 256: tab, line feed, vertical tab, form
  feed, carriage return, the four separators 28 to 31, space, next line 133 and the
  no-break space 160). Each maximal run of separators is one match, and the result is the
  list of the pieces between the matches, the empty pieces at both ends included.
\<close>

definition is_space :: "char \<Rightarrow> bool" where
  "is_space c = (of_char c \<in> {9, 10, 11, 12, 13, 28, 29, 30, 31, 32, 133, 160 :: nat})"

definition is_sep :: "char \<Rightarrow> bool" where
  "is_sep c = (c = CHR '','' \<or> is_space c)"

function re_split :: "string \<Rightarrow> string list" where
  "re_split s =
     (let piece = takeWhile (\<lambda>c. \<not> is_sep c) s;
          rest = dropWhile (\<lambda>c. \<not> is_sep c) s
      in if rest = [] then [piece] else piece # re_split (dropWhile is_sep rest))"
  by pat_completeness auto
termination
proof (relation "measure length")
  show "wf (measure length)" by simp
next
  fix s :: string and piece rest
  assume r: "rest = dropWhile (\<lambda>c. \<not> is_sep c) s" and ne: "rest \<noteq> []"
  have "is_sep (hd rest)"
    using hd_dropWhile [of "\<lambda>c. \<not> is_sep c" s] ne unfolding r by simp
  with ne have "length (dropWhile is_sep rest) < length rest"
    by (cases rest) (simp_all add: le_imp_less_Suc length_dropWhile_le)
  moreover have "length rest \<le> length s"
    unfolding r by (rule length_dropWhile_le)
  ultimately show "(dropWhile is_sep rest, s) \<in> measure length" by simp
qed

declare re_split.simps [simp del]

text \<open>\<^verbatim>\<open>str(v)\<close> of a cell that is not NaN\<close>

fun str :: "cell \<Rightarrow> string" where
  "str (Str s) = s"
| "str NaN = ''nan''"

definition required_columns :: "string list" where
  "required_columns = [''USER_NAME'', ''MAIN_GROUP'', ''ADDL_GROUP'']"

definition missing_column_message :: "string \<Rightarrow> string" where
  "missing_column_message col = ''Missing required column: '' @ col @ ''. Please check your file.''"

text \<open>The groups that the additional-groups field adds (both pages)\<close>

definition additional_groups :: "row \<Rightarrow> cell list" where
  "additional_groups r =
     (if notna (r ''ADDL_GROUP'')
      then map Str (filter (\<lambda>g. g \<noteq> []) (re_split (str (r ''ADDL_GROUP''))))
      else [])"

text \<open>
  \<^verbatim>\<open>get_user_groups\<close> of the Home page. It returns the messages it shows with
  \<^verbatim>\<open>st.error\<close> and the dictionary. Past the check of the columns no lookup in a row can
  raise.
\<close>

definition row_groups :: "row \<Rightarrow> cell list" where
  "row_groups r =
     (if notna (r ''MAIN_GROUP'') then [r ''MAIN_GROUP''] else []) @ additional_groups r"

definition get_user_groups :: "dataframe \<Rightarrow> string list \<times> (cell, cell set) dict" where
  "get_user_groups df =
     (case find (\<lambda>col. col \<notin> set (columns df)) required_columns of
        Some col \<Rightarrow> ([missing_column_message col], [])
      | None \<Rightarrow>
          ([], fold (\<lambda>r user_groups. setitem user_groups (r ''USER_NAME'') (set (row_groups r)))
                 (rows df) []))"

text \<open>
  \<^verbatim>\<open>get_user_groups\<close> of the export page: the same, but the list of groups starts
  with the user's own identifier.
\<close>

definition export_row_groups :: "row \<Rightarrow> cell list" where
  "export_row_groups r =
     (if notna (r ''MAIN_GROUP'') then [r ''USER_NAME'', r ''MAIN_GROUP''] else [r ''USER_NAME''])
     @ additional_groups r"

definition export_get_user_groups :: "dataframe \<Rightarrow> string list \<times> (cell, cell set) dict" where
  "export_get_user_groups df =
     (case find (\<lambda>col. col \<notin> set (columns df)) required_columns of
        Some col \<Rightarrow> ([missing_column_message col], [])
      | None \<Rightarrow>
          ([], fold (\<lambda>r user_groups.
                       setitem user_groups (r ''USER_NAME'') (set (export_row_groups r)))
                 (rows df) []))"

section \<open>The access resolver\<close>

text \<open>
  \<^verbatim>\<open>access = row['VHFROM'] if pd.notna(row['VHFROM']) else None\<close>: Python's
  \<^verbatim>\<open>None\<close> is \<^const>\<open>None\<close>.
\<close>

definition row_access :: "string list \<Rightarrow> row \<Rightarrow> py_error + cell option" where
  "row_access cols r =
     (case getitem cols r ''VHFROM'' of
        Inl e \<Rightarrow> Inl e
      | Inr v \<Rightarrow> Inr (if notna v then Some v else None))"

text \<open>\<^verbatim>\<open>if access:\<close> is false for \<^verbatim>\<open>None\<close> and for the empty string.\<close>

fun truthy :: "cell option \<Rightarrow> bool" where
  "truthy None = False"
| "truthy (Some (Str s)) = (s \<noteq> [])"
| "truthy (Some NaN) = True"

text \<open>\<^verbatim>\<open>.str.startswith(p, na=False)\<close> on one cell of the column\<close>

fun str_startswith :: "string \<Rightarrow> cell \<Rightarrow> bool" where
  "str_startswith p (Str s) = (take (length p) s = p)"
| "str_startswith p NaN = False"

text \<open>\<^verbatim>\<open>df[mask]\<close>: the rows of the frame where the mask holds\<close>

definition select_rows :: "dataframe \<Rightarrow> bool list \<Rightarrow> row list" where
  "select_rows df keep = map snd (filter fst (zip keep (rows df)))"

definition group_accesses_body ::
  "string list \<Rightarrow> row \<Rightarrow> (cell, cell set) dict \<Rightarrow> py_error + (cell, cell set) dict" where
  "group_accesses_body cols r group_accesses =
     (case getitem cols r ''JNUSER'' of
        Inl e \<Rightarrow> Inl e
      | Inr grp \<Rightarrow>
          (case row_access cols r of
             Inl e \<Rightarrow> Inl e
           | Inr access \<Rightarrow>
               (let d = (if \<not> contains group_accesses grp
                         then setitem group_accesses grp {} else group_accesses)
                in Inr (if truthy access then add_to d grp (the access) else d))))"

definition get_group_accesses :: "dataframe \<Rightarrow> py_error + (cell, cell set) dict" where
  "get_group_accesses df =
     (case getcolumn df ''JNUSER'' of
        Inl e \<Rightarrow> Inl e
      | Inr col \<Rightarrow>
          for_each (group_accesses_body (columns df))
            (select_rows df (map (str_startswith ''GR'') col)) [])"

definition public_accesses_body ::
  "string list \<Rightarrow> row \<Rightarrow> cell set \<Rightarrow> py_error + cell set" where
  "public_accesses_body cols r public_accesses =
     (case row_access cols r of
        Inl e \<Rightarrow> Inl e
      | Inr access \<Rightarrow>
          Inr (if truthy access then insert (the access) public_accesses else public_accesses))"

definition get_public_accesses :: "dataframe \<Rightarrow> py_error + cell set" where
  "get_public_accesses df =
     (case getcolumn df ''JNUSER'' of
        Inl e \<Rightarrow> Inl e
      | Inr col \<Rightarrow>
          for_each (public_accesses_body (columns df))
            (select_rows df (map (\<lambda>v. v = Str ''*PUBLIC'') col)) {})"

text \<open>\<^verbatim>\<open>get_user_accesses\<close> of the Home page, which skips the rows of \<^verbatim>\<open>*PUBLIC\<close>\<close>

definition user_accesses_body ::
  "string list \<Rightarrow> row \<Rightarrow> (cell, cell set) dict \<Rightarrow> py_error + (cell, cell set) dict" where
  "user_accesses_body cols r user_accesses =
     (case getitem cols r ''JNUSER'' of
        Inl e \<Rightarrow> Inl e
      | Inr user \<Rightarrow>
          (case row_access cols r of
             Inl e \<Rightarrow> Inl e
           | Inr access \<Rightarrow>
               if user = Str ''*PUBLIC'' then Inr user_accesses
               else
                 (let d = (if \<not> contains user_accesses user
                           then setitem user_accesses user {} else user_accesses)
                  in Inr (if truthy access then add_to d user (the access) else d))))"

definition get_user_accesses :: "dataframe \<Rightarrow> py_error + (cell, cell set) dict" where
  "get_user_accesses df = for_each (user_accesses_body (columns df)) (rows df) []"

section \<open>The reconciliation\<close>

text \<open>
  \<^verbatim>\<open>find_extra_accesses\<close>: the body of its loop over the items of
  \<^verbatim>\<open>user_groups\<close>, then the loop. The inner loop over the set \<^verbatim>\<open>groups\<close> adds the
  accesses of every group that is a key of \<^verbatim>\<open>group_accesses\<close>; the order in which
  a set is walked does not change the union.
\<close>

definition find_extra_accesses_body ::
  "('u, 'a set) dict \<Rightarrow> ('g, 'a set) dict \<Rightarrow> 'a set \<Rightarrow> 'u \<times> 'g set \<Rightarrow> ('u, 'a set) dict
     \<Rightarrow> ('u, 'a set) dict" where
  "find_extra_accesses_body user_accesses group_accesses public_accesses item extra_accesses =
     (case item of (user, groups) \<Rightarrow>
        (let all_expected_accesses =
               public_accesses \<union>
               (\<Union>grp \<in> {g \<in> groups. contains group_accesses g}.
                   the (map_of group_accesses grp));
             actual_accesses = dict_get user_accesses user {};
             extra = actual_accesses - all_expected_accesses
         in if extra \<noteq> {} then setitem extra_accesses user extra else extra_accesses))"

definition find_extra_accesses ::
  "('u, 'g set) dict \<Rightarrow> ('u, 'a set) dict \<Rightarrow> ('g, 'a set) dict \<Rightarrow> 'a set \<Rightarrow> ('u, 'a set) dict" where
  "find_extra_accesses user_groups user_accesses group_accesses public_accesses =
     fold (find_extra_accesses_body user_accesses group_accesses public_accesses) user_groups []"

section \<open>The summary statistics\<close>

text \<open>
  \<^verbatim>\<open>a / b\<close> on integers raises ZeroDivisionError when \<^verbatim>\<open>b\<close> is 0. The quotient is
  kept exact here; Python rounds it to a float.
\<close>

definition py_truediv :: "nat \<Rightarrow> nat \<Rightarrow> py_error + rat" where
  "py_truediv a b = (if b = 0 then Inl ZeroDivisionError else Inr (of_nat a / of_nat b))"

text \<open>\<^verbatim>\<open>sum(len(v) for v in d.values()) / len(d) if d else 0\<close>\<close>

definition average_size :: "('k, 'v set) dict \<Rightarrow> py_error + rat" where
  "average_size d =
     (if d \<noteq> [] then py_truediv (sum_list (map (\<lambda>(k, v). card v) d)) (length d) else Inr 0)"

record stats =
  total_users :: nat
  total_groups :: nat
  users_with_extra_access :: nat
  total_unique_accesses :: nat
  public_accesses_count :: nat
  avg_group_per_user :: rat
  avg_access_per_user :: rat
  avg_access_per_group :: rat

text \<open>
  \<^verbatim>\<open>generate_summary_stats\<close>, with the entry \<^verbatim>\<open>'public_accesses'\<close> of the result
  named \<^const>\<open>public_accesses_count\<close>. The two \<^verbatim>\<open>most_common\<close> entries are left
  out: they cannot raise, and their order among equal counts follows the order in which
  Python walks a set, which the language leaves open.
\<close>

definition generate_summary_stats ::
  "('u, 'g set) dict \<Rightarrow> ('u, 'a set) dict \<Rightarrow> ('g, 'a set) dict \<Rightarrow> ('u, 'a set) dict \<Rightarrow> 'a set
     \<Rightarrow> py_error + stats" where
  "generate_summary_stats user_groups user_accesses group_accesses extra_accesses public_accesses =
     (case average_size user_groups of
        Inl e \<Rightarrow> Inl e
      | Inr avg_group \<Rightarrow>
          (case average_size user_accesses of
             Inl e \<Rightarrow> Inl e
           | Inr avg_access \<Rightarrow>
               (case average_size group_accesses of
                  Inl e \<Rightarrow> Inl e
                | Inr avg_group_access \<Rightarrow>
                    Inr \<lparr> total_users = length user_groups,
                          total_groups = length group_accesses,
                          users_with_extra_access = length extra_accesses,
                          total_unique_accesses = card (\<Union> (set (map snd user_accesses))),
                          public_accesses_count = card public_accesses,
                          avg_group_per_user = avg_group,
                          avg_access_per_user = avg_access,
                          avg_access_per_group = avg_group_access \<rparr>)))"

section \<open>The run of the Home page\<close>

text \<open>
  \<^verbatim>\<open>main\<close> of the Home page, from the point where both files are loaded (its branch
  of l.506) to its end, with the search field left empty. A run is what the page has
  shown, in order, and the uncaught exception that ended it, if any; what was shown before
  an exception stays on the page. The charts are drawn by plotly from the values already
  computed and are taken to be drawn without an error; of each section the model keeps the
  values it displays, not their layout.
\<close>

datatype shown =
    Shown_success
  | Shown_error string
  | Shown_metrics stats
  | Shown_charts
  | Shown_public "cell set"
  | Shown_extra_table "(cell, cell set) dict"
  | Shown_no_extra
  | Shown_group_table "(cell, cell set) dict"
  | Shown_group_expander cell "cell set" "cell list"
  | Shown_user_table "cell list"
  | Shown_no_users
  | Shown_download

type_synonym run = "shown list \<times> py_error option"

text \<open>Steps one after the other: the first exception ends the run.\<close>

fun run_all :: "run list \<Rightarrow> run" where
  "run_all [] = ([], None)"
| "run_all ((out, Some e) # rest) = (out, Some e)"
| "run_all ((out, None) # rest) = (case run_all rest of (out', e) \<Rightarrow> (out @ out', e))"

text \<open>
  The section of the users with extra accesses (l.582-626). Only its first branch binds
  \<^verbatim>\<open>extra_access_data\<close>.
\<close>

definition extra_section :: "(cell, cell set) dict \<Rightarrow> run" where
  "extra_section extra_accesses =
     (if extra_accesses \<noteq> [] then ([Shown_extra_table extra_accesses], None)
      else ([Shown_no_extra], None))"

text \<open>
  The section of the groups (l.629-658). \<^verbatim>\<open>group_df.sort_values\<close> raises KeyError on
  the frame made from an empty list, which has no column; in the expander of a group,
  \<^verbatim>\<open>", ".join(sorted(users_list))\<close> raises TypeError when a user of the list is NaN.
\<close>

definition group_expander :: "(cell, cell set) dict \<Rightarrow> cell \<times> cell set \<Rightarrow> run" where
  "group_expander user_groups item =
     (case item of (grp, accesses) \<Rightarrow>
        (let users_list = map fst (filter (\<lambda>(user, groups). grp \<in> groups) user_groups)
         in if NaN \<in> set users_list then ([], Some TypeError)
            else ([Shown_group_expander grp accesses users_list], None)))"

definition group_section :: "(cell, cell set) dict \<Rightarrow> (cell, cell set) dict \<Rightarrow> run" where
  "group_section user_groups group_accesses =
     (if group_accesses = [] then ([], Some (KeyError ''Users in Group''))
      else run_all (([Shown_group_table group_accesses], None)
                    # map (group_expander user_groups) group_accesses))"

text \<open>The section of the users (l.661-716), every user being listed\<close>

definition user_section :: "(cell, cell set) dict \<Rightarrow> run" where
  "user_section user_groups =
     (if user_groups \<noteq> [] then ([Shown_user_table (map fst user_groups)], None)
      else ([Shown_no_users], None))"

text \<open>
  The export (l.719-733): \<^verbatim>\<open>if extra_access_data:\<close> reads a variable that is not
  bound when \<^verbatim>\<open>extra_accesses\<close> was empty.
\<close>

definition export_section :: "(cell, cell set) dict \<Rightarrow> run" where
  "export_section extra_accesses =
     (if extra_accesses = [] then ([], Some (UnboundLocalError ''extra_access_data''))
      else ([Shown_download], None))"

definition main :: "dataframe \<Rightarrow> dataframe \<Rightarrow> run" where
  "main user_groups_df master_users_groups_df =
     (let (messages, user_groups) = get_user_groups user_groups_df;
          loaded = Shown_success # map Shown_error messages
      in (case get_group_accesses master_users_groups_df of
            Inl e \<Rightarrow> (loaded, Some e)
          | Inr group_accesses \<Rightarrow>
              (case get_user_accesses master_users_groups_df of
                 Inl e \<Rightarrow> (loaded, Some e)
               | Inr user_accesses \<Rightarrow>
                   (case get_public_accesses master_users_groups_df of
                      Inl e \<Rightarrow> (loaded, Some e)
                    | Inr public_accesses \<Rightarrow>
                        (let extra_accesses =
                               find_extra_accesses user_groups user_accesses group_accesses
                                 public_accesses
                         in (case generate_summary_stats user_groups user_accesses
                                    group_accesses extra_accesses public_accesses of
                               Inl e \<Rightarrow> (loaded, Some e)
                             | Inr st \<Rightarrow>
                                 run_all
                                   [(loaded, None),
                                    ([Shown_metrics st, Shown_charts,
                                      Shown_public public_accesses], None),
                                    extra_section extra_accesses,
                                    group_section user_groups group_accesses,
                                    user_section user_groups,
                                    export_section extra_accesses]))))))"

section \<open>Notions used in the statements\<close>

text \<open>
  An access value that is neither absent nor empty, the accesses that the rows of a table
  grant to a subject, and what one row does to a dictionary of accesses when no lookup
  raises.
\<close>

fun has_access :: "cell \<Rightarrow> bool" where
  "has_access (Str s) = (s \<noteq> [])"
| "has_access NaN = False"

definition grants :: "row list \<Rightarrow> cell \<Rightarrow> cell set" where
  "grants rs k =
     set (map (\<lambda>r. r ''VHFROM'') (filter (\<lambda>r. r ''JNUSER'' = k \<and> has_access (r ''VHFROM'')) rs))"

definition add_edge :: "row \<Rightarrow> (cell, cell set) dict \<Rightarrow> (cell, cell set) dict" where
  "add_edge r d =
     (let d' = (if contains d (r ''JNUSER'') then d else setitem d (r ''JNUSER'') {})
      in if has_access (r ''VHFROM'') then add_to d' (r ''JNUSER'') (r ''VHFROM'') else d')"

text \<open>
  The reconciliation in the words of the specification: the expected accesses of a set of
  groups are the public accesses and, for every group, what \<^verbatim>\<open>group_access.get(group, {})\<close>
  gives; the extra accesses of a user are the actual ones that are not expected.
\<close>

definition spec_expected :: "('g, 'a set) dict \<Rightarrow> 'a set \<Rightarrow> 'g set \<Rightarrow> 'a set" where
  "spec_expected group_accesses public_accesses groups =
     public_accesses \<union> (\<Union>g \<in> groups. dict_get group_accesses g {})"

definition spec_extra ::
  "('u, 'a set) dict \<Rightarrow> ('g, 'a set) dict \<Rightarrow> 'a set \<Rightarrow> 'u \<Rightarrow> 'g set \<Rightarrow> 'a set" where
  "spec_extra user_accesses group_accesses public_accesses u groups =
     dict_get user_accesses u {} - spec_expected group_accesses public_accesses groups"

text \<open>
  The membership resolver in the words of the specification. A token of a string is a
  maximal run of characters that are not separators: it is not empty, holds no separator,
  and is bounded on each side by a separator or by the end of the string. The seed is the
  main group when there is one, and the groups of a row are the seed and the tokens of the
  additional-groups field.
\<close>

definition is_token :: "string \<Rightarrow> string \<Rightarrow> bool" where
  "is_token s t \<longleftrightarrow>
     t \<noteq> [] \<and> (\<forall>c \<in> set t. \<not> is_sep c) \<and>
     (\<exists>pre post. s = pre @ t @ post \<and> (pre = [] \<or> is_sep (last pre)) \<and>
                 (post = [] \<or> is_sep (hd post)))"

definition spec_seed :: "cell \<Rightarrow> cell set" where
  "spec_seed v = (case v of NaN \<Rightarrow> {} | Str s \<Rightarrow> {Str s})"

definition spec_tokens :: "cell \<Rightarrow> cell set" where
  "spec_tokens v = (case v of NaN \<Rightarrow> {} | Str s \<Rightarrow> {Str t | t. is_token s t})"

definition spec_groups :: "row \<Rightarrow> cell set" where
  "spec_groups r = spec_seed (r ''MAIN_GROUP'') \<union> spec_tokens (r ''ADDL_GROUP'')"

section \<open>Example tables\<close>

text \<open>An access table with the two columns the resolver reads, from its list of rows\<close>

definition access_row :: "cell \<Rightarrow> cell \<Rightarrow> row" where
  "access_row s a = (\<lambda>c. if c = ''JNUSER'' then s else if c = ''VHFROM'' then a else NaN)"

definition access_table :: "(cell \<times> cell) list \<Rightarrow> dataframe" where
  "access_table xs =
     \<lparr> columns = [''JNUSER'', ''VHFROM''], rows = map (\<lambda>(s, a). access_row s a) xs \<rparr>"

text \<open>A membership table with the three required columns, from its list of rows\<close>

definition membership_row :: "cell \<Rightarrow> cell \<Rightarrow> cell \<Rightarrow> row" where
  "membership_row u m a =
     (\<lambda>c. if c = ''USER_NAME'' then u else if c = ''MAIN_GROUP'' then m
          else if c = ''ADDL_GROUP'' then a else NaN)"

definition membership_table :: "(cell \<times> cell \<times> cell) list \<Rightarrow> dataframe" where
  "membership_table xs =
     \<lparr> columns = [''USER_NAME'', ''MAIN_GROUP'', ''ADDL_GROUP''],
       rows = map (\<lambda>(u, m, a). membership_row u m a) xs \<rparr>"

section \<open>The loops of the access resolver\<close>

lemma truthy_has_access: "truthy (if notna v then Some v else None) = has_access v"
  by (cases v) (simp_all add: notna_def)

lemma has_access_notna: "has_access v \<Longrightarrow> notna v"
  by (cases v) (simp_all add: notna_def)

lemma for_each_pure: "for_each (\<lambda>x s. Inr (f x s)) xs s = Inr (fold f xs s)"
  by (induction xs arbitrary: s) simp_all

lemma group_accesses_body_pure:
  assumes "''JNUSER'' \<in> set cols" "''VHFROM'' \<in> set cols"
  shows "group_accesses_body cols = (\<lambda>r d. Inr (add_edge r d))"
  using assms
  by (intro ext) (simp add: group_accesses_body_def getitem_def row_access_def add_edge_def Let_def
      truthy_has_access has_access_notna)

lemma user_accesses_body_pure:
  assumes "''JNUSER'' \<in> set cols" "''VHFROM'' \<in> set cols"
  shows "user_accesses_body cols =
           (\<lambda>r d. Inr (if r ''JNUSER'' = Str ''*PUBLIC'' then d else add_edge r d))"
  using assms
  by (intro ext) (simp add: user_accesses_body_def getitem_def row_access_def add_edge_def Let_def
      truthy_has_access has_access_notna)

lemma public_accesses_body_pure:
  assumes "''VHFROM'' \<in> set cols"
  shows "public_accesses_body cols =
           (\<lambda>r p. Inr (if has_access (r ''VHFROM'') then insert (r ''VHFROM'') p else p))"
  using assms
  by (intro ext) (simp add: public_accesses_body_def row_access_def getitem_def truthy_has_access has_access_notna)

lemma select_rows_filter: "select_rows df (map g (rows df)) = filter g (rows df)"
proof -
  have "map snd (filter fst (zip (map g rs) rs)) = filter g rs" for rs
    by (induction rs) simp_all
  then show ?thesis by (simp add: select_rows_def)
qed

lemma contains_map_of: "contains d k \<longleftrightarrow> map_of d k \<noteq> None"
  by (simp add: contains_def map_of_eq_None_iff)

lemma map_of_add_edge:
  "map_of (add_edge r d) k =
     (if k = r ''JNUSER''
      then Some (dict_get d k {} \<union> (if has_access (r ''VHFROM'') then {r ''VHFROM''} else {}))
      else map_of d k)"
  by (auto simp: add_edge_def Let_def contains_map_of setitem_def add_to_def dict_get_def
      update_conv' map_of_map_entry split: option.splits)

lemma contains_add_edge: "contains (add_edge r d) k \<longleftrightarrow> k = r ''JNUSER'' \<or> contains d k"
  by (simp add: contains_map_of map_of_add_edge)

lemma map_of_fold_add_edge:
  "map_of (fold add_edge rs d) k =
     (if k \<in> (\<lambda>r. r ''JNUSER'') ` set rs \<or> contains d k
      then Some (dict_get d k {} \<union> grants rs k) else None)"
proof (induction rs arbitrary: d)
  case Nil
  then show ?case
    by (auto simp: grants_def contains_map_of dict_get_def split: option.splits)
next
  case (Cons r rs)
  have g: "dict_get (add_edge r d) k {} \<union> grants rs k = dict_get d k {} \<union> grants (r # rs) k"
    by (auto simp: dict_get_def map_of_add_edge grants_def)
  show ?case
    using Cons.IH [of "add_edge r d"] g by (auto simp: contains_add_edge)
qed


lemma fold_skip_filter:
  "fold (\<lambda>x s. if P x then s else f x s) xs s = fold f (filter (\<lambda>x. \<not> P x) xs) s"
  by (induction xs arbitrary: s) simp_all

lemma grants_filter:
  "P k \<Longrightarrow> grants (filter (\<lambda>r. P (r ''JNUSER'')) rs) k = grants rs k"
  by (auto simp: grants_def)

lemma get_group_accesses_eq:
  assumes "''JNUSER'' \<in> set (columns df)" "''VHFROM'' \<in> set (columns df)"
  shows "get_group_accesses df =
           Inr (fold add_edge (filter (\<lambda>r. str_startswith ''GR'' (r ''JNUSER'')) (rows df)) [])"
  using assms
  by (simp add: get_group_accesses_def getcolumn_def select_rows_filter comp_def
      group_accesses_body_pure for_each_pure)

lemma get_user_accesses_eq:
  assumes "''JNUSER'' \<in> set (columns df)" "''VHFROM'' \<in> set (columns df)"
  shows "get_user_accesses df =
           Inr (fold add_edge (filter (\<lambda>r. r ''JNUSER'' \<noteq> Str ''*PUBLIC'') (rows df)) [])"
  using assms
  by (simp add: get_user_accesses_def user_accesses_body_pure for_each_pure
      fold_skip_filter)

lemma fold_insert_access:
  "fold (\<lambda>r p. if has_access (r ''VHFROM'') then insert (r ''VHFROM'') p else p) rs p =
     p \<union> (\<lambda>r. r ''VHFROM'') ` {r \<in> set rs. has_access (r ''VHFROM'')}"
  by (induction rs arbitrary: p) auto

lemma get_public_accesses_eq:
  assumes "''JNUSER'' \<in> set (columns df)" "''VHFROM'' \<in> set (columns df)"
  shows "get_public_accesses df = Inr (grants (rows df) (Str ''*PUBLIC''))"
  using assms
  by (auto simp: get_public_accesses_def getcolumn_def select_rows_filter comp_def
      public_accesses_body_pure for_each_pure fold_insert_access grants_def)

lemma map_of_group_accesses:
  assumes "get_group_accesses df = Inr ga"
    and "''JNUSER'' \<in> set (columns df)" "''VHFROM'' \<in> set (columns df)"
  shows "map_of ga k =
           (if str_startswith ''GR'' k \<and> k \<in> (\<lambda>r. r ''JNUSER'') ` set (rows df)
            then Some (grants (rows df) k) else None)"
proof -
  have ga: "ga = fold add_edge (filter (\<lambda>r. str_startswith ''GR'' (r ''JNUSER'')) (rows df)) []"
    using assms by (simp add: get_group_accesses_eq)
  show ?thesis
    unfolding ga map_of_fold_add_edge
    by (auto simp: contains_def dict_get_def grants_filter [of "str_startswith ''GR''"])
qed

lemma map_of_user_accesses:
  assumes "get_user_accesses df = Inr ua"
    and "''JNUSER'' \<in> set (columns df)" "''VHFROM'' \<in> set (columns df)"
  shows "map_of ua k =
           (if k \<noteq> Str ''*PUBLIC'' \<and> k \<in> (\<lambda>r. r ''JNUSER'') ` set (rows df)
            then Some (grants (rows df) k) else None)"
proof -
  have ua: "ua = fold add_edge (filter (\<lambda>r. r ''JNUSER'' \<noteq> Str ''*PUBLIC'') (rows df)) []"
    using assms by (simp add: get_user_accesses_eq)
  show ?thesis
    unfolding ua map_of_fold_add_edge
    by (auto simp: contains_def dict_get_def grants_filter [of "\<lambda>k. k \<noteq> Str ''*PUBLIC''"])
qed

lemmas resolver_eval =
  access_table_def access_row_def get_user_accesses_def get_group_accesses_def
  get_public_accesses_def user_accesses_body_def group_accesses_body_def
  public_accesses_body_def getitem_def getcolumn_def row_access_def select_rows_def
  notna_def contains_def setitem_def add_to_def

lemma take_prefix: "take (length p) t = p \<longleftrightarrow> (\<exists>s. t = p @ s)"
  by (metis append_take_drop_id append_eq_conv_conj)

lemma startswith_GR: "str_startswith ''GR'' k \<longleftrightarrow> (\<exists>s. k = Str (''GR'' @ s))"
  using take_prefix [of "''GR''"] by (cases k) simp_all

lemma contains_setitem: "contains (setitem d k v) k' \<longleftrightarrow> k' = k \<or> contains d k'"
  by (auto simp: contains_map_of setitem_def update_conv')

lemma contains_add_to: "contains (add_to d k x) k' \<longleftrightarrow> contains d k'"
  by (simp add: contains_def add_to_def dom_map_entry)

lemma for_each_invariant:
  assumes "for_each body xs s = Inr s'" and "I s"
    and "\<And>x s s'. x \<in> set xs \<Longrightarrow> I s \<Longrightarrow> body x s = Inr s' \<Longrightarrow> I s'"
  shows "I s'"
  using assms
proof (induction xs arbitrary: s)
  case Nil
  then show ?case by simp
next
  case (Cons x xs)
  from Cons.prems(1) obtain s1 where s1: "body x s = Inr s1" "for_each body xs s1 = Inr s'"
    by (auto split: sum.splits)
  have I1: "I s1" using Cons.prems(3) [of x s s1] Cons.prems(2) s1 by simp
  show ?case
    by (rule Cons.IH [OF s1(2) I1]) (use Cons.prems(3) in auto)
qed

lemma user_accesses_never_public:
  assumes "get_user_accesses df = Inr ua"
  shows "\<not> contains ua (Str ''*PUBLIC'')"
proof (rule for_each_invariant [where I = "\<lambda>d. \<not> contains d (Str ''*PUBLIC'')",
      OF assms [unfolded get_user_accesses_def]])
  show "\<not> contains [] (Str ''*PUBLIC'')" by (simp add: contains_def)
next
  fix r d d'
  assume "\<not> contains d (Str ''*PUBLIC'')" "user_accesses_body (columns df) r d = Inr d'"
  then show "\<not> contains d' (Str ''*PUBLIC'')"
    by (auto simp: user_accesses_body_def Let_def contains_setitem contains_add_to
        split: sum.splits if_splits)
qed

lemma set_select_rows: "r \<in> set (select_rows df (map g (rows df))) \<Longrightarrow> g r"
  by (simp add: select_rows_filter)

lemma group_accesses_never_public:
  assumes "get_group_accesses df = Inr ga"
  shows "\<not> contains ga (Str ''*PUBLIC'')"
proof -
  from assms have J: "''JNUSER'' \<in> set (columns df)"
    and loop: "for_each (group_accesses_body (columns df))
            (select_rows df (map (\<lambda>r. str_startswith ''GR'' (r ''JNUSER'')) (rows df))) [] = Inr ga"
    by (auto simp: get_group_accesses_def getcolumn_def comp_def split: if_splits)
  show ?thesis
  proof (rule for_each_invariant [where I = "\<lambda>d. \<not> contains d (Str ''*PUBLIC'')", OF loop])
    show "\<not> contains [] (Str ''*PUBLIC'')" by (simp add: contains_def)
  next
    fix r d d'
    assume r: "r \<in> set (select_rows df (map (\<lambda>r. str_startswith ''GR'' (r ''JNUSER'')) (rows df)))"
      and "\<not> contains d (Str ''*PUBLIC'')" "group_accesses_body (columns df) r d = Inr d'"
    moreover from r have "str_startswith ''GR'' (r ''JNUSER'')" by (rule set_select_rows)
    then have "r ''JNUSER'' \<noteq> Str ''*PUBLIC''" by auto
    ultimately show "\<not> contains d' (Str ''*PUBLIC'')"
      using J
      by (auto simp: group_accesses_body_def getitem_def Let_def contains_setitem contains_add_to
          split: sum.splits if_splits)
  qed
qed


section \<open>The public pseudo-subject\<close>

text \<open>
  Claim C4. The rows whose subject is \<^verbatim>\<open>*PUBLIC\<close> contribute to the public-access set
  only: \<^verbatim>\<open>*PUBLIC\<close> is never a key of the mapping that \<^verbatim>\<open>get_user_accesses\<close> returns, nor
  of the one that \<^verbatim>\<open>get_group_accesses\<close> returns, whatever the table. When the table has
  both columns, all three resolvers return, the public-access set is the set of the
  accesses granted on the rows of \<^verbatim>\<open>*PUBLIC\<close>, and the two mappings are those of the
  table without these rows.
\<close>

theorem public_rows_feed_only_public_accesses:
  "(\<forall>ua. get_user_accesses df = Inr ua \<longrightarrow> \<not> contains ua (Str ''*PUBLIC'')) \<and>
   (\<forall>ga. get_group_accesses df = Inr ga \<longrightarrow> \<not> contains ga (Str ''*PUBLIC'')) \<and>
   (''JNUSER'' \<in> set (columns df) \<and> ''VHFROM'' \<in> set (columns df) \<longrightarrow>
      get_public_accesses df = Inr (grants (rows df) (Str ''*PUBLIC'')) \<and>
      get_user_accesses df =
        get_user_accesses (df\<lparr>rows := filter (\<lambda>r. r ''JNUSER'' \<noteq> Str ''*PUBLIC'') (rows df)\<rparr>) \<and>
      get_group_accesses df =
        get_group_accesses (df\<lparr>rows := filter (\<lambda>r. r ''JNUSER'' \<noteq> Str ''*PUBLIC'') (rows df)\<rparr>) \<and>
      (\<exists>ua ga. get_user_accesses df = Inr ua \<and> get_group_accesses df = Inr ga))"
proof (intro conjI allI impI)
  fix ua assume "get_user_accesses df = Inr ua"
  then show "\<not> contains ua (Str ''*PUBLIC'')" by (rule user_accesses_never_public)
next
  fix ga assume "get_group_accesses df = Inr ga"
  then show "\<not> contains ga (Str ''*PUBLIC'')" by (rule group_accesses_never_public)
next
  assume c: "''JNUSER'' \<in> set (columns df) \<and> ''VHFROM'' \<in> set (columns df)"
  then show "get_public_accesses df = Inr (grants (rows df) (Str ''*PUBLIC''))"
    by (simp add: get_public_accesses_eq)
  from c show "get_user_accesses df =
      get_user_accesses (df\<lparr>rows := filter (\<lambda>r. r ''JNUSER'' \<noteq> Str ''*PUBLIC'') (rows df)\<rparr>)"
    by (simp add: get_user_accesses_eq)
  have "filter (\<lambda>r. str_startswith ''GR'' (r ''JNUSER'')) (rows df) =
        filter (\<lambda>r. str_startswith ''GR'' (r ''JNUSER''))
          (filter (\<lambda>r. r ''JNUSER'' \<noteq> Str ''*PUBLIC'') (rows df))"
    by (auto intro: filter_cong)
  with c show "get_group_accesses df =
      get_group_accesses (df\<lparr>rows := filter (\<lambda>r. r ''JNUSER'' \<noteq> Str ''*PUBLIC'') (rows df)\<rparr>)"
    by (simp add: get_group_accesses_eq)
  from c show "\<exists>ua ga. get_user_accesses df = Inr ua \<and> get_group_accesses df = Inr ga"
    by (simp add: get_user_accesses_eq get_group_accesses_eq)
qed

theorem public_rows_feed_only_public_accesses_witness:
  "get_user_accesses (access_table [(Str ''U1'', Str ''X''), (Str ''*PUBLIC'', Str ''Z'')])
     = Inr [(Str ''U1'', {Str ''X''})] \<and>
   \<not> contains [(Str ''U1'', {Str ''X''})] (Str ''*PUBLIC'') \<and>
   get_group_accesses (access_table [(Str ''U1'', Str ''X''), (Str ''*PUBLIC'', Str ''Z'')]) = Inr [] \<and>
   get_public_accesses (access_table [(Str ''U1'', Str ''X''), (Str ''*PUBLIC'', Str ''Z'')])
     = Inr {Str ''Z''}"
proof -
  let ?df = "access_table [(Str ''U1'', Str ''X''), (Str ''*PUBLIC'', Str ''Z'')]"
  have ua: "get_user_accesses ?df = Inr [(Str ''U1'', {Str ''X''})]"
    by (simp add: resolver_eval)
  have ga: "get_group_accesses ?df = Inr []"
    by (simp add: resolver_eval)
  have g: "grants (rows ?df) (Str ''*PUBLIC'') = {Str ''Z''}"
    by (simp add: access_table_def access_row_def grants_def)
  have c: "''JNUSER'' \<in> set (columns ?df) \<and> ''VHFROM'' \<in> set (columns ?df)"
    by (simp add: access_table_def)
  from public_rows_feed_only_public_accesses [of ?df] ua ga g c show ?thesis
    by simp
qed

section \<open>Group rows\<close>

text \<open>
  Claim C9. The group marker is the literal prefix \<^verbatim>\<open>GR\<close>: when the table has both
  columns, \<^verbatim>\<open>get_group_accesses\<close> returns a mapping whose keys are exactly the subject
  identifiers of the table that start with \<^verbatim>\<open>GR\<close>, each key being the full
  identifier and carrying the accesses granted on its rows. An ordinary user named
  \<^verbatim>\<open>GRACE\<close> is therefore a key of the mapping of groups.
\<close>

theorem group_rows_are_the_GR_rows:
  assumes "''JNUSER'' \<in> set (columns df)" and "''VHFROM'' \<in> set (columns df)"
  shows "\<exists>ga. get_group_accesses df = Inr ga \<and>
           (\<forall>k. contains ga k \<longleftrightarrow>
                  (\<exists>r \<in> set (rows df). r ''JNUSER'' = k) \<and> (\<exists>s. k = Str (''GR'' @ s))) \<and>
           (\<forall>k. contains ga k \<longrightarrow> map_of ga k = Some (grants (rows df) k))"
proof -
  obtain ga where ga: "get_group_accesses df = Inr ga"
    using assms by (simp add: get_group_accesses_eq)
  note m = map_of_group_accesses [OF ga assms]
  have "contains ga k \<longleftrightarrow> (\<exists>r \<in> set (rows df). r ''JNUSER'' = k) \<and> (\<exists>s. k = Str (''GR'' @ s))" for k
    unfolding contains_map_of m [of k] startswith_GR by auto
  moreover have "contains ga k \<longrightarrow> map_of ga k = Some (grants (rows df) k)" for k
    unfolding contains_map_of m [of k] by simp
  ultimately show ?thesis using ga by blast
qed

theorem group_rows_are_the_GR_rows_witness:
  "get_group_accesses
     (access_table [(Str ''GRACE'', Str ''X''), (Str ''U1'', Str ''Y''), (Str ''GR_ADMIN'', Str ''Z'')])
     = Inr [(Str ''GRACE'', {Str ''X''}), (Str ''GR_ADMIN'', {Str ''Z''})] \<and>
   contains [(Str ''GRACE'', {Str ''X''}), (Str ''GR_ADMIN'', {Str ''Z''})] (Str ''GRACE'') \<and>
   \<not> contains [(Str ''GRACE'', {Str ''X''}), (Str ''GR_ADMIN'', {Str ''Z''})] (Str ''U1'')"
proof -
  let ?df = "access_table [(Str ''GRACE'', Str ''X''), (Str ''U1'', Str ''Y''), (Str ''GR_ADMIN'', Str ''Z'')]"
  have c: "''JNUSER'' \<in> set (columns ?df)" "''VHFROM'' \<in> set (columns ?df)"
    by (simp_all add: access_table_def)
  have ga: "get_group_accesses ?df = Inr [(Str ''GRACE'', {Str ''X''}), (Str ''GR_ADMIN'', {Str ''Z''})]"
    by (simp add: resolver_eval)
  have r: "(\<exists>r \<in> set (rows ?df). r ''JNUSER'' = Str ''GRACE'')"
    "(\<exists>r \<in> set (rows ?df). r ''JNUSER'' = Str ''U1'')"
    by (simp_all add: access_table_def access_row_def)
  have s: "\<exists>s. Str ''GRACE'' = Str (''GR'' @ s)" "\<nexists>s. Str ''U1'' = Str (''GR'' @ s)"
    by simp_all
  from group_rows_are_the_GR_rows [OF c] ga r s show ?thesis
    by auto
qed

text \<open>
  Claim C2 says that a row whose subject starts with the group marker contributes to
  \<^verbatim>\<open>group_accesses\<close> only and that its subject is never a key of the mapping
  returned by \<^verbatim>\<open>get_user_accesses\<close>. On the table of the single row
  \<^verbatim>\<open>(GR1, X)\<close> the subject \<^verbatim>\<open>GR1\<close> is a key of both mappings.
\<close>

theorem group_rows_also_in_user_accesses_counterexample:
  "get_group_accesses (access_table [(Str ''GR1'', Str ''X'')]) = Inr [(Str ''GR1'', {Str ''X''})] \<and>
   get_user_accesses (access_table [(Str ''GR1'', Str ''X'')]) = Inr [(Str ''GR1'', {Str ''X''})] \<and>
   contains [(Str ''GR1'', {Str ''X''})] (Str ''GR1'')"
  by (simp add: resolver_eval)

text \<open>
  Claim C2, amended. \<^verbatim>\<open>get_user_accesses\<close> leaves out the rows of \<^verbatim>\<open>*PUBLIC\<close> and no
  others: when the table has both columns, every row whose subject starts with
  \<^verbatim>\<open>GR\<close> puts its subject, under the full identifier, into \<^verbatim>\<open>group_accesses\<close> and
  into \<^verbatim>\<open>user_accesses\<close> alike, with the same set of accesses; a row of any other
  subject than \<^verbatim>\<open>*PUBLIC\<close> puts its subject into \<^verbatim>\<open>user_accesses\<close> only.
\<close>

theorem group_rows_also_in_user_accesses:
  assumes "''JNUSER'' \<in> set (columns df)" and "''VHFROM'' \<in> set (columns df)"
  shows "\<exists>ua ga. get_user_accesses df = Inr ua \<and> get_group_accesses df = Inr ga \<and>
           (\<forall>r \<in> set (rows df). \<forall>s. r ''JNUSER'' = Str (''GR'' @ s) \<longrightarrow>
              map_of ga (r ''JNUSER'') = Some (grants (rows df) (r ''JNUSER'')) \<and>
              map_of ua (r ''JNUSER'') = Some (grants (rows df) (r ''JNUSER''))) \<and>
           (\<forall>r \<in> set (rows df).
              r ''JNUSER'' \<noteq> Str ''*PUBLIC'' \<and> (\<nexists>s. r ''JNUSER'' = Str (''GR'' @ s)) \<longrightarrow>
              map_of ga (r ''JNUSER'') = None \<and>
              map_of ua (r ''JNUSER'') = Some (grants (rows df) (r ''JNUSER'')))"
proof -
  obtain ga where ga: "get_group_accesses df = Inr ga"
    using assms by (simp add: get_group_accesses_eq)
  obtain ua where ua: "get_user_accesses df = Inr ua"
    using assms by (simp add: get_user_accesses_eq)
  note mg = map_of_group_accesses [OF ga assms]
  note mu = map_of_user_accesses [OF ua assms]
  have "map_of ga (r ''JNUSER'') = Some (grants (rows df) (r ''JNUSER'')) \<and>
        map_of ua (r ''JNUSER'') = Some (grants (rows df) (r ''JNUSER''))"
    if "r \<in> set (rows df)" "r ''JNUSER'' = Str (''GR'' @ s)" for r s
    using that unfolding mg mu startswith_GR by (auto simp: image_iff intro: bexI [of _ r])
  moreover have "map_of ga (r ''JNUSER'') = None \<and>
        map_of ua (r ''JNUSER'') = Some (grants (rows df) (r ''JNUSER''))"
    if "r \<in> set (rows df)" "r ''JNUSER'' \<noteq> Str ''*PUBLIC''" "\<nexists>s. r ''JNUSER'' = Str (''GR'' @ s)" for r
    using that unfolding mg mu startswith_GR by (auto simp: image_iff intro: bexI [of _ r])
  ultimately show ?thesis using ga ua by blast
qed

theorem group_rows_also_in_user_accesses_witness:
  "get_user_accesses (access_table [(Str ''GR1'', Str ''X''), (Str ''U1'', Str ''Y'')])
     = Inr [(Str ''GR1'', {Str ''X''}), (Str ''U1'', {Str ''Y''})] \<and>
   get_group_accesses (access_table [(Str ''GR1'', Str ''X''), (Str ''U1'', Str ''Y'')])
     = Inr [(Str ''GR1'', {Str ''X''})] \<and>
   grants (rows (access_table [(Str ''GR1'', Str ''X''), (Str ''U1'', Str ''Y'')])) (Str ''GR1'')
     = {Str ''X''}"
proof -
  let ?df = "access_table [(Str ''GR1'', Str ''X''), (Str ''U1'', Str ''Y'')]"
  have c: "''JNUSER'' \<in> set (columns ?df)" "''VHFROM'' \<in> set (columns ?df)"
    by (simp_all add: access_table_def)
  have ua: "get_user_accesses ?df = Inr [(Str ''GR1'', {Str ''X''}), (Str ''U1'', {Str ''Y''})]"
    by (simp add: resolver_eval)
  have ga: "get_group_accesses ?df = Inr [(Str ''GR1'', {Str ''X''})]"
    by (simp add: resolver_eval)
  have r: "access_row (Str ''GR1'') (Str ''X'') \<in> set (rows ?df)"
    "access_row (Str ''GR1'') (Str ''X'') ''JNUSER'' = Str (''GR'' @ ''1'')"
    by (simp_all add: access_table_def access_row_def)
  from group_rows_also_in_user_accesses [OF c] ua ga r show ?thesis
    by fastforce
qed


section \<open>Rows without an access value\<close>

text \<open>
  Claim C8 says that, after resolution, a subject first seen on a row whose access value is
  absent or empty has a key with the empty set as its value. On the table of the rows
  \<^verbatim>\<open>(U1, NaN)\<close> and \<^verbatim>\<open>(U1, X)\<close> the subject \<^verbatim>\<open>U1\<close> is first seen on a row
  without an access value and ends with the set \<^verbatim>\<open>{X}\<close>.
\<close>

theorem subject_without_access_counterexample:
  "get_user_accesses (access_table [(Str ''U1'', NaN), (Str ''U1'', Str ''X'')])
     = Inr [(Str ''U1'', {Str ''X''})] \<and>
   dict_get [(Str ''U1'', {Str ''X''})] (Str ''U1'') {} \<noteq> {}"
  by (simp add: resolver_eval dict_get_def)

text \<open>
  Claim C8, amended. A row whose access value is absent or empty adds no access to any
  subject and does not drop its own: when the table has both columns, the subject of such
  a row is a key of \<^verbatim>\<open>user_accesses\<close> unless it is \<^verbatim>\<open>*PUBLIC\<close>, and a key of
  \<^verbatim>\<open>group_accesses\<close> when it starts with \<^verbatim>\<open>GR\<close>; its value is the set of the
  accesses granted on the other rows of that subject, which is the same with the row
  removed, and is empty when no row of the subject has an access value.
\<close>

theorem subject_without_access_kept:
  assumes "''JNUSER'' \<in> set (columns df)" and "''VHFROM'' \<in> set (columns df)"
    and "r \<in> set (rows df)" and "\<not> has_access (r ''VHFROM'')"
  shows "\<exists>ua ga. get_user_accesses df = Inr ua \<and> get_group_accesses df = Inr ga \<and>
           (r ''JNUSER'' \<noteq> Str ''*PUBLIC'' \<longrightarrow>
              map_of ua (r ''JNUSER'') = Some (grants (rows df) (r ''JNUSER''))) \<and>
           ((\<exists>s. r ''JNUSER'' = Str (''GR'' @ s)) \<longrightarrow>
              map_of ga (r ''JNUSER'') = Some (grants (rows df) (r ''JNUSER''))) \<and>
           (\<forall>k. grants (rows df) k = grants (removeAll r (rows df)) k) \<and>
           ((\<forall>r' \<in> set (rows df). r' ''JNUSER'' = r ''JNUSER'' \<longrightarrow> \<not> has_access (r' ''VHFROM''))
              \<longrightarrow> grants (rows df) (r ''JNUSER'') = {})"
proof -
  obtain ga where ga: "get_group_accesses df = Inr ga"
    using assms by (simp add: get_group_accesses_eq)
  obtain ua where ua: "get_user_accesses df = Inr ua"
    using assms by (simp add: get_user_accesses_eq)
  note mg = map_of_group_accesses [OF ga assms(1,2)]
  note mu = map_of_user_accesses [OF ua assms(1,2)]
  have in_rows: "r ''JNUSER'' \<in> (\<lambda>r. r ''JNUSER'') ` set (rows df)"
    using assms(3) by (rule imageI)
  have 1: "r ''JNUSER'' \<noteq> Str ''*PUBLIC'' \<longrightarrow>
             map_of ua (r ''JNUSER'') = Some (grants (rows df) (r ''JNUSER''))"
    unfolding mu using in_rows by simp
  have 2: "(\<exists>s. r ''JNUSER'' = Str (''GR'' @ s)) \<longrightarrow>
             map_of ga (r ''JNUSER'') = Some (grants (rows df) (r ''JNUSER''))"
    unfolding mg startswith_GR using in_rows by simp
  have 3: "grants (rows df) k = grants (removeAll r (rows df)) k" for k
    using assms(4) by (auto simp: grants_def)
  have 4: "(\<forall>r' \<in> set (rows df). r' ''JNUSER'' = r ''JNUSER'' \<longrightarrow> \<not> has_access (r' ''VHFROM''))
              \<longrightarrow> grants (rows df) (r ''JNUSER'') = {}"
    by (auto simp: grants_def)
  from ga ua 1 2 3 4 show ?thesis by blast
qed

theorem subject_without_access_kept_witness:
  "get_user_accesses (access_table [(Str ''U1'', NaN), (Str ''GR1'', Str [])])
     = Inr [(Str ''U1'', {}), (Str ''GR1'', {})] \<and>
   get_group_accesses (access_table [(Str ''U1'', NaN), (Str ''GR1'', Str [])])
     = Inr [(Str ''GR1'', {})] \<and>
   grants (rows (access_table [(Str ''U1'', NaN), (Str ''GR1'', Str [])])) (Str ''U1'') = {}"
proof -
  let ?df = "access_table [(Str ''U1'', NaN), (Str ''GR1'', Str [])]"
  have c: "''JNUSER'' \<in> set (columns ?df)" "''VHFROM'' \<in> set (columns ?df)"
    by (simp_all add: access_table_def)
  have r: "access_row (Str ''U1'') NaN \<in> set (rows ?df)"
    "\<not> has_access (access_row (Str ''U1'') NaN ''VHFROM'')"
    by (simp_all add: access_table_def access_row_def)
  have ua: "get_user_accesses ?df = Inr [(Str ''U1'', {}), (Str ''GR1'', {})]"
    by (simp add: resolver_eval)
  have ga: "get_group_accesses ?df = Inr [(Str ''GR1'', {})]"
    by (simp add: resolver_eval)
  have g: "grants (rows ?df) (Str ''U1'') = {}"
    by (simp add: access_table_def access_row_def grants_def)
  from subject_without_access_kept [OF c r] ua ga g show ?thesis
    by simp
qed

section \<open>Properties of the reconciliation\<close>

lemma expected_union:
  "(\<Union>grp \<in> {g \<in> groups. contains group_accesses g}. the (map_of group_accesses grp)) =
   (\<Union>g \<in> groups. dict_get group_accesses g {})"
  by (auto simp: contains_map_of dict_get_def split: option.splits)

lemma map_of_find_extra_accesses_body:
  "map_of (find_extra_accesses_body user_accesses group_accesses public_accesses (k, gs) acc) u =
     (if u = k \<and> spec_extra user_accesses group_accesses public_accesses k gs \<noteq> {}
      then Some (spec_extra user_accesses group_accesses public_accesses k gs)
      else map_of acc u)"
  by (simp add: find_extra_accesses_body_def Let_def expected_union spec_extra_def
      spec_expected_def setitem_def update_conv')

lemma map_of_fold_extra:
  assumes "distinct (map fst user_groups)"
  shows "map_of (fold (find_extra_accesses_body user_accesses group_accesses public_accesses)
                   user_groups acc) u =
     (case map_of user_groups u of
        None \<Rightarrow> map_of acc u
      | Some groups \<Rightarrow>
          if spec_extra user_accesses group_accesses public_accesses u groups \<noteq> {}
          then Some (spec_extra user_accesses group_accesses public_accesses u groups)
          else map_of acc u)"
  using assms
proof (induction user_groups arbitrary: acc)
  case Nil
  then show ?case by simp
next
  case (Cons p ps)
  obtain k gs where p: "p = (k, gs)" by (cases p)
  from Cons.prems p have k: "map_of ps k = None" and d: "distinct (map fst ps)"
    by (auto simp: map_of_eq_None_iff)
  show ?case
    using k
    by (auto simp: p Cons.IH [OF d] map_of_find_extra_accesses_body split: option.splits)
qed

lemma map_of_find_extra_accesses:
  assumes "distinct (map fst user_groups)"
  shows "map_of (find_extra_accesses user_groups user_accesses group_accesses public_accesses) u =
     (case map_of user_groups u of
        None \<Rightarrow> None
      | Some groups \<Rightarrow>
          if spec_extra user_accesses group_accesses public_accesses u groups \<noteq> {}
          then Some (spec_extra user_accesses group_accesses public_accesses u groups)
          else None)"
  unfolding find_extra_accesses_def map_of_fold_extra [OF assms]
  by (simp split: option.splits)

lemmas find_extra_eval =
  find_extra_accesses_def find_extra_accesses_body_def contains_def dict_get_def setitem_def

text \<open>
  Claim C1. For a dictionary \<^verbatim>\<open>user_groups\<close> (its keys are distinct), a user is a key of
  the result of \<^verbatim>\<open>find_extra_accesses\<close> exactly when it is a key of \<^verbatim>\<open>user_groups\<close>
  and its extra accesses, the actual ones \<^verbatim>\<open>user_accesses.get(u, {})\<close> without the
  public ones and those of its groups, are not empty; the result then holds exactly these
  extra accesses. A user that is not in \<^verbatim>\<open>user_groups\<close> is never in the result.
\<close>

theorem find_extra_accesses_correct:
  assumes "distinct (map fst user_groups)"
  shows "(contains (find_extra_accesses user_groups user_accesses group_accesses public_accesses) u
            \<longleftrightarrow> (\<exists>groups. (u, groups) \<in> set user_groups \<and>
                    spec_extra user_accesses group_accesses public_accesses u groups \<noteq> {})) \<and>
         (\<forall>groups. (u, groups) \<in> set user_groups \<longrightarrow>
            dict_get (find_extra_accesses user_groups user_accesses group_accesses public_accesses) u {}
              = spec_extra user_accesses group_accesses public_accesses u groups) \<and>
         (\<not> contains user_groups u \<longrightarrow>
            \<not> contains (find_extra_accesses user_groups user_accesses group_accesses public_accesses) u)"
proof -
  note m = map_of_find_extra_accesses [OF assms, of user_accesses group_accesses public_accesses u]
  have mem: "(u, groups) \<in> set user_groups \<longleftrightarrow> map_of user_groups u = Some groups" for groups
    using assms by simp
  show ?thesis
    unfolding contains_map_of dict_get_def m mem
    by (auto split: option.splits)
qed

theorem find_extra_accesses_correct_witness:
  "find_extra_accesses [(''U1'', {''G1''}), (''U2'', {''G1'', ''G9''})]
       [(''U1'', {''X'', ''Y''}), (''U2'', {''Y'', ''Z''}), (''U3'', {''W''})]
       [(''G1'', {''Y''})] {''Z''}
     = [(''U1'', {''X''})] \<and>
   spec_extra [(''U1'', {''X'', ''Y''}), (''U2'', {''Y'', ''Z''}), (''U3'', {''W''})]
       [(''G1'', {''Y''})] {''Z''} ''U1'' {''G1''} = {''X''} \<and>
   spec_extra [(''U1'', {''X'', ''Y''}), (''U2'', {''Y'', ''Z''}), (''U3'', {''W''})]
       [(''G1'', {''Y''})] {''Z''} ''U2'' {''G1'', ''G9''} = {}"
proof -
  let ?ug = "[(''U1'', {''G1''}), (''U2'', {''G1'', ''G9''})]"
  let ?ua = "[(''U1'', {''X'', ''Y''}), (''U2'', {''Y'', ''Z''}), (''U3'', {''W''})]"
  let ?ga = "[(''G1'', {''Y''})]"
  have d: "distinct (map fst ?ug)" by simp
  have e: "find_extra_accesses ?ug ?ua ?ga {''Z''} = [(''U1'', {''X''})]"
    by (simp add: find_extra_eval) auto
  have s1: "spec_extra ?ua ?ga {''Z''} ''U1'' {''G1''} = {''X''}"
    by (simp add: spec_extra_def spec_expected_def dict_get_def) auto
  have s2: "spec_extra ?ua ?ga {''Z''} ''U2'' {''G1'', ''G9''} = {}"
    by (simp add: spec_extra_def spec_expected_def dict_get_def)
  from find_extra_accesses_correct [OF d, of ?ua ?ga "{''Z''}" "''U1''"] e s1 s2
  show ?thesis by simp
qed

text \<open>
  Claim C5. Adding an access identifier to the public accesses never makes the extra
  accesses of any user grow: the set found with \<^verbatim>\<open>public_accesses\<close> and \<^verbatim>\<open>a\<close> is
  included in the one found with \<^verbatim>\<open>public_accesses\<close> alone (the empty set standing for
  a user that is not in the result).
\<close>

theorem find_extra_accesses_antitone:
  assumes "distinct (map fst user_groups)"
  shows "dict_get (find_extra_accesses user_groups user_accesses group_accesses
                     (insert a public_accesses)) u {}
         \<subseteq> dict_get (find_extra_accesses user_groups user_accesses group_accesses public_accesses) u {}"
  unfolding dict_get_def map_of_find_extra_accesses [OF assms]
  by (auto simp: spec_extra_def spec_expected_def split: option.splits)

theorem find_extra_accesses_antitone_witness:
  "dict_get (find_extra_accesses [(''U1'', {''G1''})] [(''U1'', {''X'', ''Y''})] [(''G1'', {''Y''})]
               (insert ''X'' {''Z''})) ''U1'' {} = {} \<and>
   dict_get (find_extra_accesses [(''U1'', {''G1''})] [(''U1'', {''X'', ''Y''})] [(''G1'', {''Y''})]
               {''Z''}) ''U1'' {} = {''X''}"
proof -
  have d: "distinct (map fst [(''U1'', {''G1''})])" by simp
  have e: "find_extra_accesses [(''U1'', {''G1''})] [(''U1'', {''X'', ''Y''})] [(''G1'', {''Y''})]
               {''Z''} = [(''U1'', {''X''})]"
    by (simp add: find_extra_eval) auto
  have e': "find_extra_accesses [(''U1'', {''G1''})] [(''U1'', {''X'', ''Y''})] [(''G1'', {''Y''})]
               (insert ''X'' {''Z''}) = []"
    by (simp add: find_extra_eval)
  from find_extra_accesses_antitone [OF d, of "[(''U1'', {''X'', ''Y''})]" "[(''G1'', {''Y''})]"
      "''X''" "{''Z''}" "''U1''"] e e'
  show ?thesis by (simp add: dict_get_def)
qed

section \<open>Properties of the summary statistics\<close>

lemma average_size_value:
  "average_size d =
     Inr (if d = [] then 0 else of_nat (sum_list (map (\<lambda>(k, v). card v) d)) / of_nat (length d))"
  by (simp add: average_size_def py_truediv_def)

text \<open>
  Claim C10. \<^verbatim>\<open>generate_summary_stats\<close> returns on every input: no division raises. Each
  average is 0 when its mapping is empty, and the number of distinct accesses is 0 when
  \<^verbatim>\<open>user_accesses\<close> is empty; the average of a mapping that is not empty is the sum of
  the sizes over the number of keys.
\<close>

theorem generate_summary_stats_total:
  "\<exists>st. generate_summary_stats user_groups user_accesses group_accesses extra_accesses
            public_accesses = Inr st \<and>
          (user_groups = [] \<longrightarrow> avg_group_per_user st = 0) \<and>
          (user_accesses = [] \<longrightarrow> avg_access_per_user st = 0 \<and> total_unique_accesses st = 0) \<and>
          (group_accesses = [] \<longrightarrow> avg_access_per_group st = 0) \<and>
          (user_groups \<noteq> [] \<longrightarrow>
             avg_group_per_user st =
               of_nat (sum_list (map (\<lambda>(u, groups). card groups) user_groups))
                 / of_nat (length user_groups))"
  by (simp add: generate_summary_stats_def average_size_value)

theorem generate_summary_stats_total_witness:
  "generate_summary_stats ([] :: (cell, cell set) dict) ([] :: (cell, cell set) dict)
       ([] :: (cell, cell set) dict) ([] :: (cell, cell set) dict) ({} :: cell set)
     = Inr \<lparr> total_users = 0, total_groups = 0, users_with_extra_access = 0,
             total_unique_accesses = 0, public_accesses_count = 0, avg_group_per_user = 0,
             avg_access_per_user = 0, avg_access_per_group = 0 \<rparr> \<and>
   (\<exists>st. generate_summary_stats [(Str ''U1'', {Str ''G1'', Str ''G2''}), (Str ''U2'', {Str ''G1''})]
            ([] :: (cell, cell set) dict) ([] :: (cell, cell set) dict)
            ([] :: (cell, cell set) dict) ({} :: cell set) = Inr st \<and>
          avg_group_per_user st = 3 / 2 \<and> avg_access_per_user st = 0)"
proof -
  have 1: "generate_summary_stats ([] :: (cell, cell set) dict) ([] :: (cell, cell set) dict)
       ([] :: (cell, cell set) dict) ([] :: (cell, cell set) dict) ({} :: cell set)
     = Inr \<lparr> total_users = 0, total_groups = 0, users_with_extra_access = 0,
             total_unique_accesses = 0, public_accesses_count = 0, avg_group_per_user = 0,
             avg_access_per_user = 0, avg_access_per_group = 0 \<rparr>"
    by (simp add: generate_summary_stats_def average_size_def)
  have c: "card {Str ''G1'', Str ''G2''} = 2" by simp
  from generate_summary_stats_total
    [of "[(Str ''U1'', {Str ''G1'', Str ''G2''}), (Str ''U2'', {Str ''G1''})]"
      "[] :: (cell, cell set) dict" "[] :: (cell, cell set) dict" "[] :: (cell, cell set) dict"
      "{} :: cell set"] 1 c
  show ?thesis by simp blast
qed

section \<open>The tokens of the additional-groups field\<close>

lemma is_token_Nil: "\<not> is_token [] t"
  by (auto simp: is_token_def)

lemma is_token_sep_Cons:
  assumes "is_sep c"
  shows "is_token (c # s) t \<longleftrightarrow> is_token s t"
proof
  assume "is_token (c # s) t"
  then obtain pre post where t: "t \<noteq> []" "\<forall>c \<in> set t. \<not> is_sep c"
    and s: "c # s = pre @ t @ post" and pre: "pre = [] \<or> is_sep (last pre)"
    and post: "post = [] \<or> is_sep (hd post)"
    by (auto simp: is_token_def)
  have "pre \<noteq> []"
  proof
    assume "pre = []"
    with s t(1) have "hd t = c" by (cases t) auto
    with t assms show False by (cases t) auto
  qed
  then obtain pre' where pre': "pre = c # pre'" "s = pre' @ t @ post"
    using s by (cases pre) auto
  with pre have "pre' = [] \<or> is_sep (last pre')" by (auto split: if_splits)
  with t pre'(2) post show "is_token s t" unfolding is_token_def by blast
next
  assume "is_token s t"
  then obtain pre post where t: "t \<noteq> []" "\<forall>c \<in> set t. \<not> is_sep c"
    and s: "s = pre @ t @ post" and pre: "pre = [] \<or> is_sep (last pre)"
    and post: "post = [] \<or> is_sep (hd post)"
    by (auto simp: is_token_def)
  have "c # s = (c # pre) @ t @ post" using s by simp
  moreover have "is_sep (last (c # pre))" using pre assms by auto
  ultimately show "is_token (c # s) t" unfolding is_token_def using t post by blast
qed

lemma is_token_dropWhile_sep: "is_token (dropWhile is_sep s) t \<longleftrightarrow> is_token s t"
  by (induction s) (simp_all add: is_token_sep_Cons)

lemma is_token_piece:
  assumes tok: "\<forall>c \<in> set tok. \<not> is_sep c" and rest: "rest = [] \<or> is_sep (hd rest)"
  shows "is_token (tok @ rest) t \<longleftrightarrow> (t = tok \<and> tok \<noteq> []) \<or> is_token rest t"
proof
  assume "is_token (tok @ rest) t"
  then obtain pre post where t: "t \<noteq> []" "\<forall>c \<in> set t. \<not> is_sep c"
    and s: "tok @ rest = pre @ t @ post" and pre: "pre = [] \<or> is_sep (last pre)"
    and post: "post = [] \<or> is_sep (hd post)"
    by (auto simp: is_token_def)
  from s obtain us where "tok = pre @ us \<and> us @ rest = t @ post \<or>
      tok @ us = pre \<and> rest = us @ t @ post"
    unfolding append_eq_append_conv2 by blast
  then show "(t = tok \<and> tok \<noteq> []) \<or> is_token rest t"
  proof
    assume A: "tok = pre @ us \<and> us @ rest = t @ post"
    have "pre = []"
    proof (rule ccontr)
      assume "pre \<noteq> []"
      then have "last pre \<in> set tok" using A by simp
      with tok pre \<open>pre \<noteq> []\<close> show False by blast
    qed
    with A have eq: "tok @ rest = t @ post" by simp
    then obtain vs where "tok = t @ vs \<and> vs @ rest = post \<or> tok @ vs = t \<and> rest = vs @ post"
      unfolding append_eq_append_conv2 by blast
    then have "t = tok"
    proof
      assume A1: "tok = t @ vs \<and> vs @ rest = post"
      have "vs = []"
      proof (rule ccontr)
        assume "vs \<noteq> []"
        then have "hd post = hd vs" "post \<noteq> []" "hd vs \<in> set tok" using A1 by auto
        with tok post show False by auto
      qed
      with A1 show "t = tok" by simp
    next
      assume A2: "tok @ vs = t \<and> rest = vs @ post"
      have "vs = []"
      proof (rule ccontr)
        assume "vs \<noteq> []"
        then have "hd rest = hd vs" "rest \<noteq> []" "hd vs \<in> set t" using A2 by auto
        with t rest show False by auto
      qed
      with A2 show "t = tok" by simp
    qed
    with t show ?thesis by simp
  next
    assume B: "tok @ us = pre \<and> rest = us @ t @ post"
    have "us = [] \<or> is_sep (last us)"
    proof (cases "us = []")
      case True
      then show ?thesis by simp
    next
      case False
      with B have "last pre = last us" "pre \<noteq> []" by auto
      with pre show ?thesis by simp
    qed
    with B t post have "is_token rest t" unfolding is_token_def by blast
    then show ?thesis by simp
  qed
next
  assume "(t = tok \<and> tok \<noteq> []) \<or> is_token rest t"
  then show "is_token (tok @ rest) t"
  proof
    assume "t = tok \<and> tok \<noteq> []"
    moreover have "tok @ rest = [] @ tok @ rest" by simp
    ultimately show ?thesis unfolding is_token_def using tok rest by blast
  next
    assume "is_token rest t"
    then obtain pre post where t: "t \<noteq> []" "\<forall>c \<in> set t. \<not> is_sep c"
      and s: "rest = pre @ t @ post" and pre: "pre = [] \<or> is_sep (last pre)"
      and post: "post = [] \<or> is_sep (hd post)"
      by (auto simp: is_token_def)
    have "pre \<noteq> []"
    proof
      assume "pre = []"
      with s t have "rest \<noteq> []" "hd rest = hd t" "hd t \<in> set t" by auto
      with rest t show False by auto
    qed
    with pre have "is_sep (last (tok @ pre))" by simp
    moreover have "tok @ rest = (tok @ pre) @ t @ post" using s by simp
    ultimately show ?thesis unfolding is_token_def using t post by blast
  qed
qed

lemma re_split_tokens: "set (filter (\<lambda>g. g \<noteq> []) (re_split s)) = {t. is_token s t}"
proof (induction s rule: re_split.induct)
  case (1 s)
  let ?piece = "takeWhile (\<lambda>c. \<not> is_sep c) s"
  let ?rest = "dropWhile (\<lambda>c. \<not> is_sep c) s"
  have piece: "\<forall>c \<in> set ?piece. \<not> is_sep c"
    by (auto dest: set_takeWhileD)
  have rest: "?rest = [] \<or> is_sep (hd ?rest)"
    using hd_dropWhile [of "\<lambda>c. \<not> is_sep c" s] by blast
  have "is_token (?piece @ ?rest) t \<longleftrightarrow> (t = ?piece \<and> ?piece \<noteq> []) \<or> is_token ?rest t" for t
    by (rule is_token_piece [OF piece rest])
  then have tok: "is_token s t \<longleftrightarrow> (t = ?piece \<and> ?piece \<noteq> []) \<or> is_token ?rest t" for t
    by (simp only: takeWhile_dropWhile_id)
  show ?case
  proof (cases "?rest = []")
    case True
    then have r: "re_split s = [?piece]"
      by (subst re_split.simps) (simp only: Let_def simp_thms if_True)
    have no: "\<not> is_token ?rest t" for t
      by (subst True) (rule is_token_Nil)
    have "{t. t = ?piece \<and> ?piece \<noteq> []} = {t. is_token s t}"
      by (simp only: tok no simp_thms)
    then show ?thesis unfolding r by auto
  next
    case False
    then have r: "re_split s = ?piece # re_split (dropWhile is_sep ?rest)"
      by (subst re_split.simps) (simp only: Let_def simp_thms if_False)
    have "set (filter (\<lambda>g. g \<noteq> []) (re_split (dropWhile is_sep ?rest)))
                = {t. is_token (dropWhile is_sep ?rest) t}"
      by (rule "1.IH" [OF refl refl False])
    then have IH: "set (filter (\<lambda>g. g \<noteq> []) (re_split (dropWhile is_sep ?rest)))
                = {t. is_token ?rest t}"
      by (simp only: is_token_dropWhile_sep)
    show ?thesis unfolding r using IH by (auto simp: tok)
  qed
qed

section \<open>Properties of the membership resolver\<close>

lemma find_append_option:
  "find P (xs @ ys) = (case find P xs of None \<Rightarrow> find P ys | Some x \<Rightarrow> Some x)"
  by (induction xs) simp_all

lemma map_of_setitem: "map_of (setitem d k v) = (map_of d)(k \<mapsto> v)"
  by (simp add: setitem_def update_conv')

lemma map_of_fold_setitem:
  "map_of (fold (\<lambda>r d. setitem d (key r) (val r)) rs d) u =
     (case find (\<lambda>r. key r = u) (rev rs) of Some r \<Rightarrow> Some (val r) | None \<Rightarrow> map_of d u)"
proof (induction rs arbitrary: d)
  case Nil
  then show ?case by simp
next
  case (Cons r rs)
  show ?case
    by (simp add: Cons.IH find_append_option map_of_setitem split: option.splits)
qed

lemma contains_fold_setitem:
  "contains (fold (\<lambda>r d. setitem d (key r) (val r)) rs d) u \<longleftrightarrow> u \<in> key ` set rs \<or> contains d u"
  by (induction rs arbitrary: d) (auto simp: contains_setitem)

lemma find_last_row:
  assumes "\<forall>r' \<in> set post. key r' \<noteq> key r"
  shows "find (\<lambda>x. key x = key r) (rev (pre @ r # post)) = Some r"
proof -
  have "find (\<lambda>x. key x = key r) (rev post) = None"
    using assms by (simp add: find_None_iff)
  then show ?thesis by (simp add: find_append_option)
qed

lemma no_missing_column:
  "set required_columns \<subseteq> set cols \<Longrightarrow> find (\<lambda>col. col \<notin> set cols) required_columns = None"
  by (auto simp: find_None_iff)

lemma additional_groups_spec: "set (additional_groups r) = spec_tokens (r ''ADDL_GROUP'')"
proof (cases "r ''ADDL_GROUP''")
  case NaN
  then show ?thesis by (simp add: additional_groups_def spec_tokens_def notna_def)
next
  case (Str s)
  have "set (map Str (filter (\<lambda>g. g \<noteq> []) (re_split s))) = {Str t | t. is_token s t}"
    unfolding set_map re_split_tokens by auto
  with Str show ?thesis by (simp add: additional_groups_def spec_tokens_def notna_def)
qed

lemma row_groups_spec: "set (row_groups r) = spec_groups r"
  by (cases "r ''MAIN_GROUP''")
    (simp_all add: row_groups_def spec_groups_def spec_seed_def additional_groups_spec notna_def)

lemma export_row_groups_spec: "set (export_row_groups r) = insert (r ''USER_NAME'') (spec_groups r)"
  by (cases "r ''MAIN_GROUP''")
    (simp_all add: export_row_groups_def spec_groups_def spec_seed_def additional_groups_spec
      notna_def)


lemma get_user_groups_eq:
  assumes "set required_columns \<subseteq> set (columns df)"
  shows "get_user_groups df =
           ([], fold (\<lambda>r d. setitem d (r ''USER_NAME'') (set (row_groups r))) (rows df) [])"
  by (simp add: get_user_groups_def no_missing_column [OF assms])

lemma export_get_user_groups_eq:
  assumes "set required_columns \<subseteq> set (columns df)"
  shows "export_get_user_groups df =
           ([], fold (\<lambda>r d. setitem d (r ''USER_NAME'') (set (export_row_groups r))) (rows df) [])"
  by (simp add: export_get_user_groups_def no_missing_column [OF assms])

lemma re_split_example: "re_split ''B, C D'' = [''B'', ''C'', ''D'']"
  by (simp add: re_split.simps [of "''B, C D''"] re_split.simps [of "''C D''"]
      re_split.simps [of "''D''"] is_sep_def is_space_def)

lemma additional_groups_example:
  "additional_groups (membership_row u m (Str ''B, C D'')) = [Str ''B'', Str ''C'', Str ''D'']"
  by (simp add: additional_groups_def membership_row_def notna_def re_split_example)

lemma additional_groups_NaN: "additional_groups (membership_row u m NaN) = []"
  by (simp add: additional_groups_def membership_row_def notna_def)

lemmas membership_eval =
  membership_table_def get_user_groups_def export_get_user_groups_def
  required_columns_def row_groups_def export_row_groups_def notna_def setitem_def
  additional_groups_example additional_groups_NaN

text \<open>
  Claim C7 says that a row whose user identifier is empty or absent is skipped, so that
  no key is ever created for it. \<^verbatim>\<open>get_user_groups\<close> has no such test: on a table with
  a row whose user is NaN and a row whose user is the empty string, both are keys of the
  result.
\<close>

theorem rows_without_user_are_kept_counterexample:
  "get_user_groups (membership_table [(NaN, Str ''A'', NaN), (Str [], Str ''B'', NaN)])
     = ([], [(NaN, {Str ''A''}), (Str [], {Str ''B''})]) \<and>
   contains [(NaN, {Str ''A''}), (Str [], {Str ''B''})] NaN \<and>
   contains [(NaN, {Str ''A''}), (Str [], {Str ''B''})] (Str [])"
  by (simp add: membership_eval contains_def) (simp add: membership_row_def)

text \<open>
  Claim C7, amended. When the table has the three required columns,
  \<^verbatim>\<open>get_user_groups\<close> reports nothing and skips no row: the keys of its result are
  exactly the user identifiers of the rows, the absent identifier NaN included. No row
  makes it raise.
\<close>

theorem every_row_gives_a_key:
  assumes "set required_columns \<subseteq> set (columns df)"
  shows "fst (get_user_groups df) = [] \<and>
         (\<forall>u. contains (snd (get_user_groups df)) u \<longleftrightarrow> (\<exists>r \<in> set (rows df). r ''USER_NAME'' = u))"
  unfolding get_user_groups_eq [OF assms] fst_conv snd_conv
    contains_fold_setitem [of "\<lambda>r. r ''USER_NAME''" "\<lambda>r. set (row_groups r)"]
  by (auto simp: contains_def)

theorem every_row_gives_a_key_witness:
  "fst (get_user_groups (membership_table [(NaN, Str ''A'', NaN), (Str ''U1'', NaN, NaN)])) = [] \<and>
   contains (snd (get_user_groups (membership_table [(NaN, Str ''A'', NaN), (Str ''U1'', NaN, NaN)])))
     NaN \<and>
   \<not> contains (snd (get_user_groups (membership_table [(NaN, Str ''A'', NaN), (Str ''U1'', NaN, NaN)])))
     (Str ''U2'')"
proof -
  let ?df = "membership_table [(NaN, Str ''A'', NaN), (Str ''U1'', NaN, NaN)]"
  have c: "set required_columns \<subseteq> set (columns ?df)"
    by (simp add: membership_table_def required_columns_def)
  have r: "\<exists>r \<in> set (rows ?df). r ''USER_NAME'' = NaN"
    "\<not> (\<exists>r \<in> set (rows ?df). r ''USER_NAME'' = Str ''U2'')"
    by (simp_all add: membership_table_def membership_row_def)
  from every_row_gives_a_key [OF c] r show ?thesis by simp
qed

text \<open>
  Claim C3 says that both resolvers give, for the main group \<^verbatim>\<open>A\<close> and the additional
  groups \<^verbatim>\<open>B, C D\<close>, exactly the groups A, B, C and D. The resolver of the export page
  starts the list of groups with the user's own identifier, so that user \<^verbatim>\<open>U1\<close> gets
  U1, A, B, C and D.
\<close>

theorem resolved_groups_counterexample:
  "export_get_user_groups (membership_table [(Str ''U1'', Str ''A'', Str ''B, C D'')])
     = ([], [(Str ''U1'', {Str ''U1'', Str ''A'', Str ''B'', Str ''C'', Str ''D''})]) \<and>
   {Str ''U1'', Str ''A'', Str ''B'', Str ''C'', Str ''D''}
     \<noteq> {Str ''A'', Str ''B'', Str ''C'', Str ''D''}"
proof
  show "export_get_user_groups (membership_table [(Str ''U1'', Str ''A'', Str ''B, C D'')])
     = ([], [(Str ''U1'', {Str ''U1'', Str ''A'', Str ''B'', Str ''C'', Str ''D''})])"
    by (simp add: membership_eval) (simp add: membership_row_def insert_commute)
  have "Str ''U1'' \<notin> {Str ''A'', Str ''B'', Str ''C'', Str ''D''}" by simp
  then show "{Str ''U1'', Str ''A'', Str ''B'', Str ''C'', Str ''D''}
     \<noteq> {Str ''A'', Str ''B'', Str ''C'', Str ''D''}"
    by (metis insertI1)
qed

text \<open>
  Claim C3, amended. When the table has the three required columns, take a row that is
  the last one of its user (a later row of the same user replaces the set). The resolver
  of the Home page maps the user to exactly the main group, when there is one (an absent
  main group gives an empty seed and no error), together with the tokens of the
  additional-groups field: the maximal runs of characters other than commas and white
  space. The resolver of the export page maps the user to the same set with the user's
  own identifier added to it.
\<close>

theorem resolved_groups:
  assumes "set required_columns \<subseteq> set (columns df)"
    and "rows df = pre @ r # post"
    and "\<forall>r' \<in> set post. r' ''USER_NAME'' \<noteq> r ''USER_NAME''"
  shows "map_of (snd (get_user_groups df)) (r ''USER_NAME'') = Some (spec_groups r) \<and>
         map_of (snd (export_get_user_groups df)) (r ''USER_NAME'')
           = Some (insert (r ''USER_NAME'') (spec_groups r))"
  unfolding get_user_groups_eq [OF assms(1)] export_get_user_groups_eq [OF assms(1)] assms(2)
    snd_conv
    map_of_fold_setitem [of "\<lambda>r. r ''USER_NAME''" "\<lambda>r. set (row_groups r)"]
    map_of_fold_setitem [of "\<lambda>r. r ''USER_NAME''" "\<lambda>r. set (export_row_groups r)"]
    find_last_row [of post "\<lambda>r. r ''USER_NAME''" r pre, OF assms(3)]
  by (simp add: row_groups_spec export_row_groups_spec)

theorem resolved_groups_witness:
  "map_of (snd (get_user_groups (membership_table [(Str ''U1'', Str ''A'', Str ''B, C D'')])))
     (Str ''U1'') = Some {Str ''A'', Str ''B'', Str ''C'', Str ''D''} \<and>
   map_of (snd (export_get_user_groups (membership_table [(Str ''U1'', Str ''A'', Str ''B, C D'')])))
     (Str ''U1'') = Some {Str ''U1'', Str ''A'', Str ''B'', Str ''C'', Str ''D''}"
proof -
  let ?r = "membership_row (Str ''U1'') (Str ''A'') (Str ''B, C D'')"
  let ?df = "membership_table [(Str ''U1'', Str ''A'', Str ''B, C D'')]"
  have c: "set required_columns \<subseteq> set (columns ?df)"
    by (simp add: membership_table_def required_columns_def)
  have rs: "rows ?df = [] @ ?r # []"
    by (simp add: membership_table_def)
  have g: "spec_groups ?r = {Str ''A'', Str ''B'', Str ''C'', Str ''D''}"
    unfolding row_groups_spec [symmetric]
    by (simp add: row_groups_def additional_groups_example notna_def)
      (simp add: membership_row_def insert_commute)
  have u: "?r ''USER_NAME'' = Str ''U1''"
    by (simp add: membership_row_def)
  from resolved_groups [OF c rs] show ?thesis
    unfolding g u by (simp add: insert_commute)
qed

section \<open>Missing columns\<close>

text \<open>
  A run in which a required column of the membership table is missing and the access table
  has its two columns: \<^verbatim>\<open>get_user_groups\<close> shows the message and returns the empty
  dictionary, \<^verbatim>\<open>main\<close> goes on with it, shows the metrics of no user, and ends with an
  uncaught exception, in the section of the groups when there is no group and in the export
  otherwise. A run in which the access table has no column \<^verbatim>\<open>JNUSER\<close> ends with a
  KeyError before anything is computed.
\<close>

lemma get_user_groups_missing:
  "find (\<lambda>col. col \<notin> set (columns df)) required_columns = Some c \<Longrightarrow>
     get_user_groups df = ([missing_column_message c], [])"
  by (simp add: get_user_groups_def)

lemma find_extra_accesses_Nil: "find_extra_accesses [] ua ga pa = []"
  by (simp add: find_extra_accesses_def)

lemma generate_summary_stats_returns:
  "\<exists>st. generate_summary_stats ug ua ga ea pa = Inr st \<and> total_users st = length ug"
  by (simp add: generate_summary_stats_def average_size_value)

lemma run_all_expanders_no_user:
  "run_all (map (group_expander []) ga) =
     (map (\<lambda>(grp, accesses). Shown_group_expander grp accesses []) ga, None)"
  by (induction ga) (auto simp: group_expander_def)

lemma group_section_no_user:
  "group_section [] ga =
     (if ga = [] then ([], Some (KeyError ''Users in Group''))
      else (Shown_group_table ga # map (\<lambda>(grp, accesses). Shown_group_expander grp accesses []) ga,
            None))"
  by (simp add: group_section_def run_all_expanders_no_user)

lemma main_missing_membership_column:
  assumes m: "find (\<lambda>col. col \<notin> set (columns user_groups_df)) required_columns = Some c"
    and c: "''JNUSER'' \<in> set (columns master_df)" "''VHFROM'' \<in> set (columns master_df)"
  shows "\<exists>st out e. main user_groups_df master_df =
            (Shown_success # Shown_error (missing_column_message c) # Shown_metrics st # out,
             Some e) \<and>
          total_users st = 0 \<and>
          (e = KeyError ''Users in Group'' \<or> e = UnboundLocalError ''extra_access_data'')"
proof -
  obtain ga where ga: "get_group_accesses master_df = Inr ga"
    using c by (simp add: get_group_accesses_eq)
  obtain ua where ua: "get_user_accesses master_df = Inr ua"
    using c by (simp add: get_user_accesses_eq)
  obtain pa where pa: "get_public_accesses master_df = Inr pa"
    using c by (simp add: get_public_accesses_eq)
  obtain st where st: "generate_summary_stats ([] :: (cell, cell set) dict) ua ga
      ([] :: (cell, cell set) dict) pa = Inr st" "total_users st = 0"
    using generate_summary_stats_returns [of "[] :: (cell, cell set) dict" ua ga "[]" pa]
    by auto
  have run: "main user_groups_df master_df =
      run_all [([Shown_success, Shown_error (missing_column_message c)], None),
               ([Shown_metrics st, Shown_charts, Shown_public pa], None),
               extra_section [], group_section [] ga, user_section [], export_section []]"
    by (simp add: main_def get_user_groups_missing [OF m] ga ua pa find_extra_accesses_Nil st)
  show ?thesis
    unfolding run using st(2)
    by (simp add: extra_section_def group_section_no_user user_section_def export_section_def)
qed

lemma main_missing_JNUSER:
  "''JNUSER'' \<notin> set (columns master_df) \<Longrightarrow>
     main user_groups_df master_df =
       (Shown_success # map Shown_error (fst (get_user_groups user_groups_df)),
        Some (KeyError ''JNUSER''))"
  by (simp add: main_def get_group_accesses_def getcolumn_def split: prod.splits)

lemmas main_eval =
  main_def get_user_groups_def required_columns_def missing_column_message_def
  resolver_eval find_extra_eval generate_summary_stats_def average_size_def py_truediv_def
  extra_section_def group_section_def group_expander_def user_section_def export_section_def

text \<open>
  Claim C6. The specification requires a missing required column to end the run with an
  error reported for each missing column, and no partial or degraded result to be shown.
  \<^verbatim>\<open>get_user_groups\<close> does check the columns and report, but the run is not stopped. On
  a membership table without \<^verbatim>\<open>ADDL_GROUP\<close> the page shows the message, then the
  metrics, the charts and the tables computed for no user, and ends with an uncaught
  UnboundLocalError in the export. On a membership table whose two columns are named
  \<^verbatim>\<open>NAME\<close> and \<^verbatim>\<open>GROUP\<close>, so that all three required columns are missing, only
  \<^verbatim>\<open>USER_NAME\<close> is reported, and with no group in the access table the run ends with
  an uncaught KeyError in the section of the groups.
\<close>

theorem missing_column_run:
  "main \<lparr> columns = [''USER_NAME'', ''MAIN_GROUP''],
           rows = [membership_row (Str ''U1'') (Str ''G1'') NaN] \<rparr>
        (access_table [(Str ''U1'', Str ''X''), (Str ''GR1'', Str ''Y'')])
   = ([Shown_success,
       Shown_error ''Missing required column: ADDL_GROUP. Please check your file.'',
       Shown_metrics
         \<lparr> total_users = 0, total_groups = 1, users_with_extra_access = 0,
           total_unique_accesses = 2, public_accesses_count = 0,
           avg_group_per_user = 0, avg_access_per_user = 1, avg_access_per_group = 1 \<rparr>,
       Shown_charts, Shown_public {}, Shown_no_extra,
       Shown_group_table [(Str ''GR1'', {Str ''Y''})],
       Shown_group_expander (Str ''GR1'') {Str ''Y''} [],
       Shown_no_users],
      Some (UnboundLocalError ''extra_access_data'')) \<and>
   main \<lparr> columns = [''NAME'', ''GROUP''],
           rows = [(\<lambda>c. NaN)(''NAME'' := Str ''U1'', ''GROUP'' := Str ''G1'')] \<rparr>
        (access_table [(Str ''U1'', Str ''X'')])
   = ([Shown_success,
       Shown_error ''Missing required column: USER_NAME. Please check your file.'',
       Shown_metrics
         \<lparr> total_users = 0, total_groups = 0, users_with_extra_access = 0,
           total_unique_accesses = 1, public_accesses_count = 0,
           avg_group_per_user = 0, avg_access_per_user = 1, avg_access_per_group = 0 \<rparr>,
       Shown_charts, Shown_public {}, Shown_no_extra],
      Some (KeyError ''Users in Group''))"
  by (simp add: main_eval)

end
